theory Spec2Isabelle
  imports Main
begin

section \<open>The omnibox of the Markdown viewer\<close>

text \<open>
  A shallow embedding of \<^verbatim>\<open>src/textual_markdown_viewer/widgets/omnibox.py\<close>.

  Python strings are modelled as HOL strings, one \<^typ>\<open>char\<close> per code point, so the
  model covers the submitted texts whose code points are below 256. The library
  functions the widget calls (\<^verbatim>\<open>str.strip\<close>, \<^verbatim>\<open>str.lower\<close>,
  \<^verbatim>\<open>str.split(None, 1)\<close>, \<^verbatim>\<open>pathlib.Path\<close> in its POSIX flavour) are
  written out below as Python defines them on that range.
\<close>

subsection \<open>Python string operations\<close>

definition isspace :: "char \<Rightarrow> bool" where
  \<comment> \<open>\<^verbatim>\<open>str.isspace\<close> on one code point below 256: TAB, LF, VT, FF, CR, FS, GS, RS,
      US, SPACE, NEL and NBSP.\<close>
  "isspace c \<longleftrightarrow> c \<in> {CHR 0x09, CHR 0x0A, CHR 0x0B, CHR 0x0C, CHR 0x0D,
                     CHR 0x1C, CHR 0x1D, CHR 0x1E, CHR 0x1F, CHR 0x20, CHR 0x85, CHR 0xA0}"

definition strip :: "string \<Rightarrow> string" where
  \<comment> \<open>\<^verbatim>\<open>s.strip()\<close>: drop the whitespace at both ends.\<close>
  "strip s = rev (dropWhile isspace (rev (dropWhile isspace s)))"

definition lower_char :: "char \<Rightarrow> char" where
  \<comment> \<open>The lowercase of one code point below 256: A..Z and the Latin-1 capitals
      (0xC0..0xDE without the multiplication sign 0xD7) move up by 32.\<close>
  "lower_char c =
     (let n = (of_char c :: nat)
      in if (65 \<le> n \<and> n \<le> 90) \<or> (192 \<le> n \<and> n \<le> 222 \<and> n \<noteq> 215)
         then char_of (n + 32) else c)"

definition lower :: "string \<Rightarrow> string" where
  \<comment> \<open>\<^verbatim>\<open>s.lower()\<close>.\<close>
  "lower s = map lower_char s"

definition split_maxsplit1 :: "string \<Rightarrow> string list" where
  \<comment> \<open>\<^verbatim>\<open>s.split(None, 1)\<close>: skip leading whitespace; the first word is the run up to
      the next whitespace; the whitespace after it is skipped and what is left, if
      anything, is the second element, copied to the end of the string.\<close>
  "split_maxsplit1 s =
     (let s1 = dropWhile isspace s
      in if s1 = [] then []
         else let word = takeWhile (\<lambda>c. \<not> isspace c) s1;
                  rest = dropWhile isspace (dropWhile (\<lambda>c. \<not> isspace c) s1)
              in if rest = [] then [word] else [word, rest])"

fun split_sep :: "char \<Rightarrow> string \<Rightarrow> string list" where
  \<comment> \<open>\<^verbatim>\<open>s.split(sep)\<close> for a one-character separator.\<close>
  "split_sep sep [] = [[]]"
| "split_sep sep (c # cs) =
     (if c = sep then [] # split_sep sep cs
      else (case split_sep sep cs of
              [] \<Rightarrow> [[c]]
            | x # xs \<Rightarrow> (c # x) # xs))"

fun join :: "string \<Rightarrow> string list \<Rightarrow> string" where
  \<comment> \<open>\<^verbatim>\<open>sep.join(xs)\<close>.\<close>
  "join sep [] = []"
| "join sep [x] = x"
| "join sep (x # y # ys) = x @ sep @ join sep (y # ys)"

subsection \<open>Paths and URLs\<close>

datatype path = PosixPath (root: string) (parts: "string list")

definition splitroot :: "string \<Rightarrow> string \<times> string" where
  \<comment> \<open>The root of a POSIX path: exactly two leading slashes are kept, any other
      number of them is one slash.\<close>
  "splitroot part =
     (case part of
        [] \<Rightarrow> ([], part)
      | c # _ \<Rightarrow>
          if c = CHR ''/'' then
            (let stripped_part = dropWhile (\<lambda>d. d = CHR ''/'') part
             in if length part - length stripped_part = 2
                then (''//'', stripped_part) else (''/'', stripped_part))
          else ([], part))"

definition Path :: "string \<Rightarrow> path" where
  \<comment> \<open>\<^verbatim>\<open>Path(s)\<close>: the root, and the components between slashes, without the empty
      ones and the single dots.\<close>
  "Path s =
     (let (rt, rel) = splitroot s
      in PosixPath rt (filter (\<lambda>x. x \<noteq> [] \<and> x \<noteq> ''.'') (split_sep (CHR ''/'') rel)))"

definition str_path :: "path \<Rightarrow> string" where
  \<comment> \<open>\<^verbatim>\<open>str(path)\<close>: the path with no root and no component prints as a dot.\<close>
  "str_path p = (let s = root p @ join ''/'' (parts p) in if s = [] then ''.'' else s)"

datatype url = URL string

record probe =
  exists :: "path \<Rightarrow> bool"
  is_file :: "path \<Rightarrow> bool"
  is_dir :: "path \<Rightarrow> bool"

subsection \<open>The widget\<close>

datatype message =
    LocalViewCommand path
  | RemoteViewCommand url
  | LocalChdirCommand path
  | ContentsCommand
  | LocalFilesCommand
  | QuitCommand
  | HistoryCommand
  | AboutCommand

datatype error = ValueError | AttributeError

record omnibox =
  value_str :: string
  posted :: "message list"
  stopped :: bool

definition post_message :: "message \<Rightarrow> omnibox \<Rightarrow> omnibox" where
  "post_message m self = self\<lparr>posted := posted self @ [m]\<rparr>"

definition event_stop :: "omnibox \<Rightarrow> omnibox" where
  "event_stop self = self\<lparr>stopped := True\<rparr>"

definition ALIASES :: "(string \<times> string) list" where
  "ALIASES =
     [(''a'', ''about''),
      (''c'', ''contents''),
      (''cd'', ''chdir''),
      (''h'', ''history''),
      (''l'', ''local''),
      (''toc'', ''contents''),
      (''q'', ''quit'')]"

definition aliases_get :: "string \<Rightarrow> string" where
  \<comment> \<open>\<^verbatim>\<open>self._ALIASES.get(command, command)\<close>.\<close>
  "aliases_get command = (case map_of ALIASES command of None \<Rightarrow> command | Some c \<Rightarrow> c)"

definition split_command :: "string \<Rightarrow> string list" where
  "split_command v =
     (let command = split_maxsplit1 v
      in if length command = 1 then command @ [[]] else command)"

definition command_contents :: "string \<Rightarrow> omnibox \<Rightarrow> omnibox" where
  "command_contents _ self = post_message ContentsCommand self"

definition command_local :: "string \<Rightarrow> omnibox \<Rightarrow> omnibox" where
  "command_local _ self = post_message LocalFilesCommand self"

definition command_quit :: "string \<Rightarrow> omnibox \<Rightarrow> omnibox" where
  "command_quit _ self = post_message QuitCommand self"

definition command_history :: "string \<Rightarrow> omnibox \<Rightarrow> omnibox" where
  "command_history _ self = post_message HistoryCommand self"

definition command_about :: "string \<Rightarrow> omnibox \<Rightarrow> omnibox" where
  "command_about _ self = post_message AboutCommand self"

definition command_chdir :: "string \<Rightarrow> omnibox \<Rightarrow> omnibox" where
  "command_chdir target self = post_message (LocalChdirCommand (Path target)) self"

definition getattr :: "string \<Rightarrow> (string \<Rightarrow> omnibox \<Rightarrow> omnibox) option" where
  \<comment> \<open>\<^verbatim>\<open>getattr(self, name, None)\<close> on the names that start with
      \<^verbatim>\<open>command_\<close>: the six handlers the class defines.\<close>
  "getattr name =
     map_of
       [(''command_contents'', command_contents),
        (''command_local'', command_local),
        (''command_quit'', command_quit),
        (''command_history'', command_history),
        (''command_about'', command_about),
        (''command_chdir'', command_chdir)] name"

definition is_command :: "string \<Rightarrow> error + bool" where
  \<comment> \<open>The unpacking \<^verbatim>\<open>command, *_ = ...\<close> raises ValueError on the empty list.\<close>
  "is_command v =
     (case split_command v of
        [] \<Rightarrow> Inl ValueError
      | command # _ \<Rightarrow> Inr (getattr (''command_'' @ aliases_get command) \<noteq> None))"

definition execute_command :: "string \<Rightarrow> omnibox \<Rightarrow> error + omnibox" where
  \<comment> \<open>The unpacking \<^verbatim>\<open>command, arguments = ...\<close> needs exactly two elements;
      \<^verbatim>\<open>getattr\<close> without a default raises AttributeError.\<close>
  "execute_command v self =
     (case split_command v of
        [command, arguments] \<Rightarrow>
          (case getattr (''command_'' @ aliases_get command) of
             None \<Rightarrow> Inl AttributeError
           | Some handler \<Rightarrow> Inr (handler (strip arguments) self))
      | _ \<Rightarrow> Inl ValueError)"

definition on_input_submitted :: "(string \<Rightarrow> bool) \<Rightarrow> probe \<Rightarrow> omnibox \<Rightarrow> error + omnibox" where
  \<comment> \<open>\<^verbatim>\<open>is_likely_url\<close> and the file system are the widget's surroundings: they are
      parameters. The field \<^const>\<open>stopped\<close> is the flag of the submit event.\<close>
  "on_input_submitted is_likely_url fs self0 =
     (let submitted = strip (value_str self0);
          self = self0\<lparr>value_str := []\<rparr>
      in if is_likely_url submitted then
           Inr (event_stop (post_message (RemoteViewCommand (URL submitted)) self))
         else
           let path = Path submitted
           in if exists fs path then
                (if is_file fs path then
                   Inr (event_stop ((post_message (LocalViewCommand path) self)
                                      \<lparr>value_str := str_path path\<rparr>))
                 else if is_dir fs path then
                   Inr (event_stop (post_message (LocalChdirCommand path) self))
                 else Inr self)
              else
                let command = lower submitted
                in case is_command command of
                     Inl e \<Rightarrow> Inl e
                   | Inr True \<Rightarrow>
                       (case execute_command command self of
                          Inl e \<Rightarrow> Inl e
                        | Inr self' \<Rightarrow> Inr (event_stop self'))
                   | Inr False \<Rightarrow>
                       Inr (event_stop ((post_message (LocalViewCommand (Path submitted)) self)
                                          \<lparr>value_str := submitted\<rparr>)))"

subsection \<open>Sample surroundings\<close>

text \<open>
  Concrete URL predicates and file systems on which the handler is evaluated below.
\<close>

definition url_never :: "string \<Rightarrow> bool" where
  \<comment> \<open>Nothing looks like a URL.\<close>
  "url_never s = False"

definition url_https :: "string \<Rightarrow> bool" where
  \<comment> \<open>The texts that start with \<^verbatim>\<open>https://\<close> look like URLs.\<close>
  "url_https s = (take 8 s = ''https://'')"

definition fs_nothing :: probe where
  \<comment> \<open>No path exists.\<close>
  "fs_nothing = \<lparr>exists = (\<lambda>p. False), is_file = (\<lambda>p. False), is_dir = (\<lambda>p. False)\<rparr>"

definition fs_files :: probe where
  \<comment> \<open>Every path is an existing regular file.\<close>
  "fs_files = \<lparr>exists = (\<lambda>p. True), is_file = (\<lambda>p. True), is_dir = (\<lambda>p. False)\<rparr>"

definition fs_dirs :: probe where
  \<comment> \<open>Every path is an existing directory.\<close>
  "fs_dirs = \<lparr>exists = (\<lambda>p. True), is_file = (\<lambda>p. False), is_dir = (\<lambda>p. True)\<rparr>"

definition fs_special :: probe where
  \<comment> \<open>Every path exists and is neither a regular file nor a directory.\<close>
  "fs_special = \<lparr>exists = (\<lambda>p. True), is_file = (\<lambda>p. False), is_dir = (\<lambda>p. False)\<rparr>"

definition fs_readme :: probe where
  \<comment> \<open>The one existing path is the regular file \<^verbatim>\<open>README.md\<close>.\<close>
  "fs_readme =
     \<lparr>exists = (\<lambda>p. p = Path ''README.md''),
      is_file = (\<lambda>p. p = Path ''README.md''),
      is_dir = (\<lambda>p. False)\<rparr>"

definition fresh :: "string \<Rightarrow> omnibox" where
  \<comment> \<open>The widget holding a typed text, before the submit event is handled.\<close>
  "fresh v = \<lparr>value_str = v, posted = [], stopped = False\<rparr>"

section \<open>Properties of the string operations\<close>

text \<open>
  Lowercasing neither creates nor removes whitespace, stripping the two ends commutes,
  and the split of a text is either empty (the text is all whitespace) or a word and a
  remainder.
\<close>

lemma isspace_code: "isspace c \<Longrightarrow> (of_char c :: nat) \<in> {9, 10, 11, 12, 13, 28, 29, 30, 31, 32, 133, 160}"
  unfolding isspace_def by auto

lemma isspace_lower_char [simp]: "isspace (lower_char c) = isspace c"
proof (cases "lower_char c = c")
  case True
  then show ?thesis by simp
next
  case False
  define n where "n = (of_char c :: nat)"
  from False have up: "(65 \<le> n \<and> n \<le> 90) \<or> (192 \<le> n \<and> n \<le> 222 \<and> n \<noteq> 215)"
    and lc: "lower_char c = char_of (n + 32)"
    unfolding lower_char_def n_def Let_def by (auto split: if_splits)
  have "\<not> isspace c"
    using isspace_code [of c] up unfolding n_def by auto
  moreover have "\<not> isspace (char_of (n + 32))"
  proof
    assume "isspace (char_of (n + 32))"
    from isspace_code [OF this] have "(n + 32) mod 256 \<in> {9, 10, 11, 12, 13, 28, 29, 30, 31, 32, 133, 160}"
      by (simp add: take_bit_eq_mod)
    moreover from up have "(n + 32) mod 256 = n + 32" by auto
    ultimately show False using up by auto
  qed
  ultimately show ?thesis using lc by simp
qed

lemma lower_char_idem [simp]: "lower_char (lower_char c) = lower_char c"
proof (cases "lower_char c = c")
  case True
  then show ?thesis by simp
next
  case False
  define n where "n = (of_char c :: nat)"
  from False have up: "(65 \<le> n \<and> n \<le> 90) \<or> (192 \<le> n \<and> n \<le> 222 \<and> n \<noteq> 215)"
    and lc: "lower_char c = char_of (n + 32)"
    unfolding lower_char_def n_def Let_def by (auto split: if_splits)
  from up have "(n + 32) mod 256 = n + 32" by auto
  then have "(of_char (char_of (n + 32)) :: nat) = n + 32"
    by (simp add: take_bit_eq_mod)
  then have "lower_char (char_of (n + 32)) = char_of (n + 32)"
    using up unfolding lower_char_def Let_def by auto
  then show ?thesis using lc by simp
qed

lemma all_dropWhile: "(\<forall>x\<in>set (dropWhile P xs). P x) \<longleftrightarrow> (\<forall>x\<in>set xs. P x)"
  by (induction xs) auto

lemma rstrip_Cons:
  "rev (dropWhile P (rev (c # cs))) =
     (if (\<forall>x\<in>set cs. P x) \<and> P c then [] else c # rev (dropWhile P (rev cs)))"
  by (auto simp: dropWhile_append)

lemma lstrip_rstrip:
  "dropWhile P (rev (dropWhile P (rev s))) = rev (dropWhile P (rev (dropWhile P s)))"
proof (induction s)
  case Nil
  then show ?case by simp
next
  case (Cons c cs)
  show ?case
  proof (cases "P c")
    case True
    then show ?thesis using Cons by (simp add: rstrip_Cons all_dropWhile del: rev.simps)
  next
    case False
    then show ?thesis by (simp add: rstrip_Cons del: rev.simps)
  qed
qed

lemma strip_strip [simp]: "strip (strip s) = strip s"
  unfolding strip_def by (simp add: lstrip_rstrip)

lemma lower_strip: "lower (strip s) = strip (lower s)"
  unfolding lower_def strip_def by (simp add: rev_map dropWhile_map comp_def)

lemma strip_Nil_iff: "strip s = [] \<longleftrightarrow> (\<forall>c\<in>set s. isspace c)"
  unfolding strip_def by (simp add: all_dropWhile)

lemma strip_hd: "strip s \<noteq> [] \<Longrightarrow> \<not> isspace (hd (strip s))"
proof -
  assume a: "strip s \<noteq> []"
  have "strip s = dropWhile isspace (rev (dropWhile isspace (rev s)))"
    unfolding strip_def by (simp add: lstrip_rstrip)
  with a show ?thesis by (metis hd_dropWhile)
qed

lemma set_strip: "x \<in> set (strip s) \<Longrightarrow> x \<in> set s"
proof -
  assume "x \<in> set (strip s)"
  then have "x \<in> set (dropWhile isspace (rev (dropWhile isspace s)))"
    unfolding strip_def by simp
  then have "x \<in> set (rev (dropWhile isspace s))" by (rule set_dropWhileD)
  then have "x \<in> set (dropWhile isspace s)" by simp
  then show ?thesis by (rule set_dropWhileD)
qed

lemma split_command_unfold:
  "split_command s =
     (if dropWhile isspace s = [] then []
      else [takeWhile (\<lambda>c. \<not> isspace c) (dropWhile isspace s),
            dropWhile isspace (dropWhile (\<lambda>c. \<not> isspace c) (dropWhile isspace s))])"
proof (cases "dropWhile isspace s = []")
  case True
  then show ?thesis
    unfolding split_command_def split_maxsplit1_def Let_def
    by (simp del: dropWhile_eq_Nil_conv)
next
  case False
  show ?thesis
  proof (cases "dropWhile isspace (dropWhile (\<lambda>c. \<not> isspace c) (dropWhile isspace s)) = []")
    case True
    with False show ?thesis
      unfolding split_command_def split_maxsplit1_def Let_def
      by (simp del: dropWhile_eq_Nil_conv)
  next
    case r: False
    with False show ?thesis
      unfolding split_command_def split_maxsplit1_def Let_def
      by (simp del: dropWhile_eq_Nil_conv)
  qed
qed

lemma split_command_cases:
  "split_command s = [] \<and> (\<forall>c\<in>set s. isspace c) \<or>
   (\<exists>command arguments. split_command s = [command, arguments])"
proof (cases "dropWhile isspace s = []")
  case True
  then have "\<forall>c\<in>set s. isspace c" by simp
  moreover from True have "split_command s = []"
    by (simp add: split_command_unfold del: dropWhile_eq_Nil_conv)
  ultimately show ?thesis by simp
next
  case False
  then have "split_command s =
      [takeWhile (\<lambda>c. \<not> isspace c) (dropWhile isspace s),
       dropWhile isspace (dropWhile (\<lambda>c. \<not> isspace c) (dropWhile isspace s))]"
    by (simp add: split_command_unfold del: dropWhile_eq_Nil_conv)
  then show ?thesis by blast
qed


lemma strip_token:
  assumes "tok \<noteq> []" and "\<forall>c\<in>set tok. \<not> isspace c"
  shows "strip (tok @ CHR '' '' # y) =
           (if \<forall>c\<in>set y. isspace c then tok else tok @ CHR '' '' # rev (dropWhile isspace (rev y)))"
proof -
  from assms obtain a as where tok: "tok = a # as" by (cases tok) auto
  with assms have a: "\<not> isspace a" by simp
  from assms have l: "\<not> isspace (last tok)" by simp
  have sp: "isspace CHR '' ''" by (simp add: isspace_def)
  have 1: "dropWhile isspace (tok @ CHR '' '' # y) = tok @ CHR '' '' # y"
    using tok a by simp
  have 2: "dropWhile isspace (rev tok) = rev tok"
    using assms by (cases "rev tok") auto
  show ?thesis
    unfolding strip_def 1 using sp 2 by (auto simp: dropWhile_append)
qed

lemma split_command_token:
  assumes "tok \<noteq> []" and "\<forall>c\<in>set tok. \<not> isspace c"
  shows "split_command (strip (tok @ CHR '' '' # y)) = [tok, strip y]"
proof -
  from assms obtain a as where tok: "tok = a # as" by (cases tok) auto
  with assms have a: "\<not> isspace a" by simp
  have sp: "isspace CHR '' ''" by (simp add: isspace_def)
  have d1: "dropWhile isspace (tok @ z) = tok @ z" for z
    using tok a by simp
  have tw: "takeWhile (\<lambda>c. \<not> isspace c) (tok @ CHR '' '' # z) = tok" for z
    using assms sp by (simp add: takeWhile_append2)
  have dw: "dropWhile (\<lambda>c. \<not> isspace c) (tok @ CHR '' '' # z) = CHR '' '' # z" for z
    using assms sp by (simp add: dropWhile_append2)
  have tw0: "takeWhile (\<lambda>c. \<not> isspace c) tok = tok"
    using assms by simp
  have dw0: "dropWhile (\<lambda>c. \<not> isspace c) tok = []"
    using assms by simp
  show ?thesis
  proof (cases "\<forall>c\<in>set y. isspace c")
    case True
    then have sy: "strip y = []" by (simp add: strip_Nil_iff)
    have st: "strip (tok @ CHR '' '' # y) = tok"
      using True strip_token [OF assms] by simp
    have "split_command tok = [tok, []]"
      using d1 [of "[]"] tw0 dw0 assms(1)
      by (simp add: split_command_unfold del: dropWhile_eq_Nil_conv)
    with sy st show ?thesis by simp
  next
    case False
    let ?r = "rev (dropWhile isspace (rev y))"
    have sy: "strip y = dropWhile isspace ?r"
      unfolding strip_def by (simp add: lstrip_rstrip)
    have st: "strip (tok @ CHR '' '' # y) = tok @ CHR '' '' # ?r"
      using False strip_token [OF assms] by simp
    have "split_command (tok @ CHR '' '' # ?r) = [tok, dropWhile isspace ?r]"
      using d1 [of "CHR '' '' # ?r"] tw [of ?r] dw [of ?r] sp assms(1)
      by (simp add: split_command_unfold del: dropWhile_eq_Nil_conv)
    with sy st show ?thesis by simp
  qed
qed

section \<open>The branches of the submit handler\<close>

text \<open>
  The words of a lowercased text are in lower case; a text that is a command splits
  into a word and a remainder; and each branch of the handler below the URL and file
  system checks is entered exactly when the split of the lowercased text says so.
\<close>

lemma lower_all_space:
  assumes "\<forall>c\<in>set (lower s). isspace c"
  shows "\<forall>c\<in>set s. isspace c"
  using assms unfolding lower_def by simp

lemma lower_lower [simp]: "lower (lower s) = lower s"
  unfolding lower_def by simp



lemma is_command_TrueD:
  assumes "is_command v = Inr True"
  shows "\<exists>command arguments handler.
           split_command v = [command, arguments] \<and>
           getattr (''command_'' @ aliases_get command) = Some handler"
proof -
  from split_command_cases [of v] show ?thesis
  proof
    assume "split_command v = [] \<and> (\<forall>c\<in>set v. isspace c)"
    with assms show ?thesis unfolding is_command_def by simp
  next
    assume "\<exists>command arguments. split_command v = [command, arguments]"
    then obtain command arguments where s: "split_command v = [command, arguments]" by blast
    with assms have "getattr (''command_'' @ aliases_get command) \<noteq> None"
      unfolding is_command_def by simp
    with s show ?thesis by blast
  qed
qed

lemma on_input_submitted_command:
  assumes "\<not> is_likely_url (strip (value_str self))"
    and "\<not> exists fs (Path (strip (value_str self)))"
    and "split_command (lower (strip (value_str self))) = [command, arguments]"
    and "getattr (''command_'' @ aliases_get command) = Some handler"
  shows "on_input_submitted is_likely_url fs self =
           Inr (event_stop (handler (strip arguments) (self\<lparr>value_str := []\<rparr>)))"
  using assms
  unfolding on_input_submitted_def is_command_def execute_command_def Let_def
  by simp

lemma on_input_submitted_unresolved:
  assumes "\<not> is_likely_url (strip (value_str self))"
    and "\<not> exists fs (Path (strip (value_str self)))"
    and "split_command (lower (strip (value_str self))) = command # tail"
    and "getattr (''command_'' @ aliases_get command) = None"
  shows "on_input_submitted is_likely_url fs self =
           Inr (self\<lparr>value_str := strip (value_str self),
                     posted := posted self @ [LocalViewCommand (Path (strip (value_str self)))],
                     stopped := True\<rparr>)"
  using assms
  unfolding on_input_submitted_def is_command_def Let_def post_message_def event_stop_def
  by simp

lemma on_input_submitted_empty:
  assumes "\<not> is_likely_url (strip (value_str self))"
    and "\<not> exists fs (Path (strip (value_str self)))"
    and "split_command (lower (strip (value_str self))) = []"
  shows "on_input_submitted is_likely_url fs self = Inl ValueError"
  using assms
  unfolding on_input_submitted_def is_command_def Let_def
  by simp

lemma stopped_event_stop: "stopped (event_stop s)"
  unfolding event_stop_def by simp

lemma on_input_submitted_returns:
  assumes "\<not> is_likely_url (strip (value_str self))"
    and "\<not> exists fs (Path (strip (value_str self)))"
    and "strip (value_str self) \<noteq> []"
  shows "\<exists>self'. on_input_submitted is_likely_url fs self = Inr self' \<and> stopped self'"
proof -
  let ?s = "strip (value_str self)"
  from split_command_cases [of "lower ?s"] show ?thesis
  proof
    assume "split_command (lower ?s) = [] \<and> (\<forall>c\<in>set (lower ?s). isspace c)"
    then have "\<forall>c\<in>set (lower ?s). isspace c" by (rule conjunct2)
    then have "\<forall>c\<in>set ?s. isspace c" by (rule lower_all_space)
    then have "strip ?s = []" using strip_Nil_iff [of ?s] by blast
    with assms(3) show ?thesis by simp
  next
    assume "\<exists>command arguments. split_command (lower ?s) = [command, arguments]"
    then obtain command arguments
      where sp: "split_command (lower ?s) = [command, arguments]" by blast
    show ?thesis
    proof (cases "getattr (''command_'' @ aliases_get command)")
      case None
      from on_input_submitted_unresolved
          [where is_likely_url = is_likely_url and self = self and fs = fs,
           OF assms(1,2) sp None]
      show ?thesis by simp
    next
      case (Some handler)
      from on_input_submitted_command
          [where is_likely_url = is_likely_url and self = self and fs = fs,
           OF assms(1,2) sp Some]
      show ?thesis by (simp add: stopped_event_stop)
    qed
  qed
qed

subsection \<open>The alias table\<close>

text \<open>
  Every alias and every canonical name is a non-empty lowercase word without
  whitespace; an alias resolves to its canonical name, a canonical name to itself, and
  every canonical name has a handler. A text that starts with such a word and a space
  is dispatched to the word's handler with the stripped, lowercased rest.
\<close>

lemma lower_space: "lower (tok @ CHR '' '' # x) = lower tok @ CHR '' '' # lower x"
proof -
  have "lower_char CHR '' '' = CHR '' ''" by code_simp
  then show ?thesis unfolding lower_def by simp
qed

lemma on_input_submitted_word:
  assumes "tok \<noteq> []" and "\<forall>c\<in>set tok. \<not> isspace c" and "lower tok = tok"
    and "getattr (''command_'' @ aliases_get tok) = Some handler"
    and "\<not> is_likely_url (strip (tok @ '' '' @ x))"
    and "\<not> exists fs (Path (strip (tok @ '' '' @ x)))"
  shows "on_input_submitted is_likely_url fs (self\<lparr>value_str := tok @ '' '' @ x\<rparr>) =
           Inr (event_stop (handler (strip (lower x)) (self\<lparr>value_str := []\<rparr>)))"
proof -
  let ?self = "self\<lparr>value_str := tok @ '' '' @ x\<rparr>"
  have v: "strip (value_str ?self) = strip (tok @ CHR '' '' # x)" by simp
  have "lower (strip (tok @ CHR '' '' # x)) = strip (tok @ CHR '' '' # lower x)"
    using assms(3) by (simp add: lower_strip lower_space)
  then have sp: "split_command (lower (strip (value_str ?self))) = [tok, strip (lower x)]"
    using split_command_token [OF assms(1,2), of "lower x"] v by simp
  have u: "\<not> is_likely_url (strip (value_str ?self))" using assms(5) by simp
  have e: "\<not> exists fs (Path (strip (value_str ?self)))" using assms(6) by simp
  from on_input_submitted_command
      [where is_likely_url = is_likely_url and self = ?self and fs = fs,
       OF u e sp assms(4)]
  show ?thesis by simp
qed

lemma lower_words:
  "lower ''a'' = ''a''" "lower ''about'' = ''about''"
  "lower ''c'' = ''c''" "lower ''contents'' = ''contents''"
  "lower ''cd'' = ''cd''" "lower ''chdir'' = ''chdir''"
  "lower ''h'' = ''h''" "lower ''history'' = ''history''"
  "lower ''l'' = ''l''" "lower ''local'' = ''local''"
  "lower ''toc'' = ''toc''"
  "lower ''q'' = ''q''" "lower ''quit'' = ''quit''"
  by code_simp+

lemma alias_words_lower:
  "(alias, canonical) \<in> set ALIASES \<Longrightarrow> lower alias = alias \<and> lower canonical = canonical"
  unfolding ALIASES_def by (auto simp: lower_words)

lemma alias_words_no_space:
  "(alias, canonical) \<in> set ALIASES \<Longrightarrow>
     (\<forall>c\<in>set alias. \<not> isspace c) \<and> (\<forall>c\<in>set canonical. \<not> isspace c)"
  unfolding ALIASES_def by (auto simp: isspace_def)

lemma alias_words_not_empty:
  "(alias, canonical) \<in> set ALIASES \<Longrightarrow> alias \<noteq> [] \<and> canonical \<noteq> []"
  unfolding ALIASES_def by auto

lemma alias_words_get:
  "(alias, canonical) \<in> set ALIASES \<Longrightarrow> aliases_get alias = canonical"
  unfolding ALIASES_def by (auto simp: aliases_get_def ALIASES_def)

lemma canonical_words_get:
  "(alias, canonical) \<in> set ALIASES \<Longrightarrow> aliases_get canonical = canonical"
  unfolding ALIASES_def by (auto simp: aliases_get_def ALIASES_def)

lemma alias_words_handler:
  "(alias, canonical) \<in> set ALIASES \<Longrightarrow> getattr (''command_'' @ canonical) \<noteq> None"
  unfolding ALIASES_def by (auto simp: getattr_def)

section \<open>The claims\<close>

text \<open>
  Claim C1. Whenever the URL predicate accepts the submitted text (the stripped value),
  the handler posts one \<^const>\<open>RemoteViewCommand\<close> with that text as URL, leaves the
  value empty and stops the event, whatever the file system probe answers: the probe
  \<open>fs\<close> is arbitrary and is not consulted.
\<close>

theorem url_check_wins:
  assumes "is_likely_url (strip (value_str self))"
  shows "on_input_submitted is_likely_url fs self =
           Inr (self\<lparr>value_str := [],
                     posted := posted self @ [RemoteViewCommand (URL (strip (value_str self)))],
                     stopped := True\<rparr>)"
  using assms
  unfolding on_input_submitted_def Let_def post_message_def event_stop_def by simp

theorem url_check_wins_witness:
  "url_https (strip (value_str (fresh '' https://example.com/readme.md''))) \<and>
   exists fs_files (Path ''https://example.com/readme.md'') \<and>
   on_input_submitted url_https fs_files (fresh '' https://example.com/readme.md'') =
     Inr \<lparr>value_str = [],
          posted = [RemoteViewCommand (URL ''https://example.com/readme.md'')],
          stopped = True\<rparr>"
proof -
  have s: "strip '' https://example.com/readme.md'' = ''https://example.com/readme.md''"
    by code_simp
  have h: "url_https (strip (value_str (fresh '' https://example.com/readme.md'')))"
    unfolding fresh_def by (simp add: s url_https_def)
  from url_check_wins [of url_https "fresh '' https://example.com/readme.md''" fs_files, OF h]
  show ?thesis
    using h by (simp add: fresh_def s fs_files_def)
qed




text \<open>
  Claim C3, as stated, fails in its example: the value is set to the string of the
  path object, and a path drops a leading \<^verbatim>\<open>./\<close>, so after submitting
  \<^verbatim>\<open>./README.md\<close> the value is \<^verbatim>\<open>README.md\<close>.
\<close>

theorem local_file_value_counterexample:
  "on_input_submitted url_never fs_files (fresh ''./README.md'') =
     Inr \<lparr>value_str = ''README.md'',
          posted = [LocalViewCommand (Path ''./README.md'')],
          stopped = True\<rparr> \<and>
   ''README.md'' \<noteq> ''./README.md''"
  by code_simp

text \<open>
  Claim C3, amended. When the submitted text is not URL-like and the probe reports its
  path as an existing regular file, the handler posts one \<^const>\<open>LocalViewCommand\<close>
  for that path, stops the event and sets the value to the string of the path, which is
  the text in normal form: for \<^verbatim>\<open>./README.md\<close> it is \<^verbatim>\<open>README.md\<close>.
\<close>

theorem local_file_value_is_path_string:
  assumes "submitted = strip (value_str self)"
    and "\<not> is_likely_url submitted"
    and "exists fs (Path submitted)"
    and "is_file fs (Path submitted)"
  shows "on_input_submitted is_likely_url fs self =
           Inr (self\<lparr>value_str := str_path (Path submitted),
                     posted := posted self @ [LocalViewCommand (Path submitted)],
                     stopped := True\<rparr>) \<and>
         str_path (Path ''./README.md'') = ''README.md''"
proof
  show "on_input_submitted is_likely_url fs self =
          Inr (self\<lparr>value_str := str_path (Path submitted),
                    posted := posted self @ [LocalViewCommand (Path submitted)],
                    stopped := True\<rparr>)"
    using assms
    unfolding on_input_submitted_def Let_def post_message_def event_stop_def by simp
next
  show "str_path (Path ''./README.md'') = ''README.md''"
    by (simp add: str_path_def Path_def splitroot_def)
qed

theorem local_file_value_is_path_string_witness:
  "exists fs_readme (Path ''./README.md'') \<and>
   is_file fs_readme (Path ''./README.md'') \<and>
   on_input_submitted url_never fs_readme (fresh ''./README.md'') =
     Inr \<lparr>value_str = ''README.md'',
          posted = [LocalViewCommand (Path ''README.md'')],
          stopped = True\<rparr>"
proof -
  have s: "''./README.md'' = strip (value_str (fresh ''./README.md''))"
    unfolding fresh_def by code_simp
  have u: "\<not> url_never ''./README.md''" by (simp add: url_never_def)
  have p: "Path ''./README.md'' = Path ''README.md''" by code_simp
  have e: "exists fs_readme (Path ''./README.md'')" by (simp add: fs_readme_def p)
  have f: "is_file fs_readme (Path ''./README.md'')" by (simp add: fs_readme_def p)
  from local_file_value_is_path_string
      [where is_likely_url = url_never and fs = fs_readme and self = "fresh ''./README.md''",
       OF s u e f]
  show ?thesis using e f by (simp add: fresh_def p)
qed

text \<open>
  Claim C4. For every entry of the alias table and every argument text \<open>x\<close>, the
  alias followed by a space and \<open>x\<close> and the canonical name followed by a space and
  \<open>x\<close>, when neither is URL-like nor an existing path, are dispatched to the same
  handler, the one registered for the canonical name, with the same argument, and so
  give the same result.
\<close>

theorem alias_same_as_canonical:
  assumes "(alias, canonical) \<in> set ALIASES"
    and "\<not> is_likely_url (strip (alias @ '' '' @ x))"
    and "\<not> exists fs (Path (strip (alias @ '' '' @ x)))"
    and "\<not> is_likely_url (strip (canonical @ '' '' @ x))"
    and "\<not> exists fs (Path (strip (canonical @ '' '' @ x)))"
  shows "\<exists>handler.
           getattr (''command_'' @ canonical) = Some handler \<and>
           on_input_submitted is_likely_url fs (self\<lparr>value_str := alias @ '' '' @ x\<rparr>) =
             Inr (event_stop (handler (strip (lower x)) (self\<lparr>value_str := []\<rparr>))) \<and>
           on_input_submitted is_likely_url fs (self\<lparr>value_str := canonical @ '' '' @ x\<rparr>) =
             Inr (event_stop (handler (strip (lower x)) (self\<lparr>value_str := []\<rparr>)))"
proof -
  note m = assms(1)
  have a: "alias \<noteq> []" "\<forall>c\<in>set alias. \<not> isspace c" "lower alias = alias"
    using alias_words_not_empty [OF m] alias_words_no_space [OF m] alias_words_lower [OF m]
    by simp_all
  have c: "canonical \<noteq> []" "\<forall>c\<in>set canonical. \<not> isspace c" "lower canonical = canonical"
    using alias_words_not_empty [OF m] alias_words_no_space [OF m] alias_words_lower [OF m]
    by simp_all
  have r: "aliases_get alias = canonical" "aliases_get canonical = canonical"
    using alias_words_get [OF m] canonical_words_get [OF m] by simp_all
  have g: "getattr (''command_'' @ canonical) \<noteq> None"
    using m by (rule alias_words_handler)
  from g obtain handler where h: "getattr (''command_'' @ canonical) = Some handler"
    by blast
  from h r have ha: "getattr (''command_'' @ aliases_get alias) = Some handler"
    and hc: "getattr (''command_'' @ aliases_get canonical) = Some handler"
    by simp_all
  have w1: "on_input_submitted is_likely_url fs (self\<lparr>value_str := alias @ '' '' @ x\<rparr>) =
              Inr (event_stop (handler (strip (lower x)) (self\<lparr>value_str := []\<rparr>)))"
    using a ha assms(2,3) by (rule on_input_submitted_word)
  have w2: "on_input_submitted is_likely_url fs (self\<lparr>value_str := canonical @ '' '' @ x\<rparr>) =
              Inr (event_stop (handler (strip (lower x)) (self\<lparr>value_str := []\<rparr>)))"
    using c hc assms(4,5) by (rule on_input_submitted_word)
  show ?thesis
  proof (intro exI conjI)
    show "getattr (''command_'' @ canonical) = Some handler" by (rule h)
    show "on_input_submitted is_likely_url fs (self\<lparr>value_str := alias @ '' '' @ x\<rparr>) =
            Inr (event_stop (handler (strip (lower x)) (self\<lparr>value_str := []\<rparr>)))"
      by (rule w1)
    show "on_input_submitted is_likely_url fs (self\<lparr>value_str := canonical @ '' '' @ x\<rparr>) =
            Inr (event_stop (handler (strip (lower x)) (self\<lparr>value_str := []\<rparr>)))"
      by (rule w2)
  qed
qed

theorem alias_same_as_canonical_witness:
  "(''cd'', ''chdir'') \<in> set ALIASES \<and>
   on_input_submitted url_never fs_nothing (fresh ''cd /tmp'') =
     Inr \<lparr>value_str = [], posted = [LocalChdirCommand (Path ''/tmp'')], stopped = True\<rparr> \<and>
   on_input_submitted url_never fs_nothing (fresh ''chdir /tmp'') =
     Inr \<lparr>value_str = [], posted = [LocalChdirCommand (Path ''/tmp'')], stopped = True\<rparr>"
proof -
  have m: "(''cd'', ''chdir'') \<in> set ALIASES" by (simp add: ALIASES_def)
  have u: "\<not> url_never (strip (''cd'' @ '' '' @ ''/tmp''))"
    "\<not> url_never (strip (''chdir'' @ '' '' @ ''/tmp''))"
    by (simp_all add: url_never_def)
  have e: "\<not> exists fs_nothing (Path (strip (''cd'' @ '' '' @ ''/tmp'')))"
    "\<not> exists fs_nothing (Path (strip (''chdir'' @ '' '' @ ''/tmp'')))"
    by (simp_all add: fs_nothing_def)
  have g: "getattr (''command_'' @ ''chdir'') = Some command_chdir"
    by (simp add: getattr_def)
  have st: "strip (lower ''/tmp'') = ''/tmp''" by code_simp
  from alias_same_as_canonical
      [where is_likely_url = url_never and fs = fs_nothing and self = "fresh []"
         and x = "''/tmp''", OF m u(1) e(1) u(2) e(2)]
  obtain handler where "getattr (''command_'' @ ''chdir'') = Some handler"
    and "on_input_submitted url_never fs_nothing ((fresh [])\<lparr>value_str := ''cd'' @ '' '' @ ''/tmp''\<rparr>) =
           Inr (event_stop (handler (strip (lower ''/tmp'')) ((fresh [])\<lparr>value_str := []\<rparr>)))"
    and "on_input_submitted url_never fs_nothing ((fresh [])\<lparr>value_str := ''chdir'' @ '' '' @ ''/tmp''\<rparr>) =
           Inr (event_stop (handler (strip (lower ''/tmp'')) ((fresh [])\<lparr>value_str := []\<rparr>)))"
    by blast
  with g m show ?thesis
    by (simp add: st fresh_def command_chdir_def post_message_def event_stop_def)
qed

text \<open>
  Claim C5. Command matching does not depend on the case of the typed text: two texts
  with the same lowercase form, neither URL-like nor an existing path, whose leading
  word resolves to a handler, are dispatched to that same handler with the same
  argument and give the same result. When the word resolves to \<^verbatim>\<open>quit\<close>, as for
  \<^verbatim>\<open>Q\<close> and \<^verbatim>\<open>q\<close>, both post exactly one \<^const>\<open>QuitCommand\<close>, leave the
  value empty and stop the event.
\<close>

theorem command_matching_is_case_insensitive:
  assumes "lower (strip v) = lower (strip w)"
    and "\<not> is_likely_url (strip v)" and "\<not> exists fs (Path (strip v))"
    and "\<not> is_likely_url (strip w)" and "\<not> exists fs (Path (strip w))"
    and "split_command (lower (strip v)) = [command, arguments]"
    and "getattr (''command_'' @ aliases_get command) = Some handler"
  shows "on_input_submitted is_likely_url fs (self\<lparr>value_str := v\<rparr>) =
           Inr (event_stop (handler (strip arguments) (self\<lparr>value_str := []\<rparr>))) \<and>
         on_input_submitted is_likely_url fs (self\<lparr>value_str := w\<rparr>) =
           Inr (event_stop (handler (strip arguments) (self\<lparr>value_str := []\<rparr>))) \<and>
         (aliases_get command = ''quit'' \<longrightarrow>
            on_input_submitted is_likely_url fs (self\<lparr>value_str := v\<rparr>) =
              Inr (self\<lparr>value_str := [], posted := posted self @ [QuitCommand],
                        stopped := True\<rparr>) \<and>
            on_input_submitted is_likely_url fs (self\<lparr>value_str := w\<rparr>) =
              Inr (self\<lparr>value_str := [], posted := posted self @ [QuitCommand],
                        stopped := True\<rparr>))"
proof -
  let ?v = "self\<lparr>value_str := v\<rparr>" and ?w = "self\<lparr>value_str := w\<rparr>"
  have uv: "\<not> is_likely_url (strip (value_str ?v))" using assms(2) by simp
  have ev: "\<not> exists fs (Path (strip (value_str ?v)))" using assms(3) by simp
  have sv: "split_command (lower (strip (value_str ?v))) = [command, arguments]"
    using assms(6) by simp
  have uw: "\<not> is_likely_url (strip (value_str ?w))" using assms(4) by simp
  have ew: "\<not> exists fs (Path (strip (value_str ?w)))" using assms(5) by simp
  have sw: "split_command (lower (strip (value_str ?w))) = [command, arguments]"
    using assms(1,6) by simp
  have rv: "on_input_submitted is_likely_url fs ?v =
              Inr (event_stop (handler (strip arguments) (self\<lparr>value_str := []\<rparr>)))"
    using on_input_submitted_command
      [where is_likely_url = is_likely_url and self = ?v and fs = fs, OF uv ev sv assms(7)]
    by simp
  have rw: "on_input_submitted is_likely_url fs ?w =
              Inr (event_stop (handler (strip arguments) (self\<lparr>value_str := []\<rparr>)))"
    using on_input_submitted_command
      [where is_likely_url = is_likely_url and self = ?w and fs = fs, OF uw ew sw assms(7)]
    by simp
  have q: "event_stop (handler (strip arguments) (self\<lparr>value_str := []\<rparr>)) =
             self\<lparr>value_str := [], posted := posted self @ [QuitCommand], stopped := True\<rparr>"
    if "aliases_get command = ''quit''"
  proof -
    have "getattr (''command_'' @ ''quit'') = Some command_quit" by (simp add: getattr_def)
    with that assms(7) have "handler = command_quit" by simp
    then show ?thesis by (simp add: command_quit_def post_message_def event_stop_def)
  qed
  from rv rw q show ?thesis by simp
qed

theorem command_matching_is_case_insensitive_witness:
  "split_command (lower ''Q'') = [''q'', []] \<and>
   on_input_submitted url_never fs_nothing (fresh ''Q'') =
     Inr \<lparr>value_str = [], posted = [QuitCommand], stopped = True\<rparr> \<and>
   on_input_submitted url_never fs_nothing (fresh ''q'') =
     Inr \<lparr>value_str = [], posted = [QuitCommand], stopped = True\<rparr>"
proof -
  have l: "lower (strip ''Q'') = lower (strip ''q'')" by code_simp
  have u: "\<not> url_never (strip ''Q'')" "\<not> url_never (strip ''q'')"
    by (simp_all add: url_never_def)
  have e: "\<not> exists fs_nothing (Path (strip ''Q''))" "\<not> exists fs_nothing (Path (strip ''q''))"
    by (simp_all add: fs_nothing_def)
  have sp: "split_command (lower (strip ''Q'')) = [''q'', []]" by code_simp
  have sp': "split_command (lower ''Q'') = [''q'', []]" by code_simp
  have a: "aliases_get ''q'' = ''quit''" by (simp add: aliases_get_def ALIASES_def)
  have g: "getattr (''command_'' @ aliases_get ''q'') = Some command_quit"
    by (simp add: getattr_def aliases_get_def ALIASES_def)
  from command_matching_is_case_insensitive
      [where is_likely_url = url_never and fs = fs_nothing and self = "fresh []"
         and v = "''Q''" and w = "''q''",
       OF l u(1) e(1) u(2) e(2) sp g]
  show ?thesis using a sp'
    by (simp add: fresh_def command_quit_def post_message_def event_stop_def)
qed

text \<open>
  Claim C6. When the submitted text is not URL-like, its path does not exist and the
  first word of the lowercased text resolves to no handler, the handler posts exactly
  one \<^const>\<open>LocalViewCommand\<close> for the path of the submitted text, puts the submitted
  text back as the value and stops the event.
\<close>

theorem unresolved_filename:
  assumes "submitted = strip (value_str self)"
    and "\<not> is_likely_url submitted"
    and "\<not> exists fs (Path submitted)"
    and "split_command (lower submitted) = command # tail"
    and "getattr (''command_'' @ aliases_get command) = None"
  shows "on_input_submitted is_likely_url fs self =
           Inr (self\<lparr>value_str := submitted,
                     posted := posted self @ [LocalViewCommand (Path submitted)],
                     stopped := True\<rparr>)"
  using assms by (simp add: on_input_submitted_unresolved)

theorem unresolved_filename_witness:
  "split_command (lower ''not-a-real-file.md'') = [''not-a-real-file.md'', []] \<and>
   getattr (''command_'' @ aliases_get ''not-a-real-file.md'') = None \<and>
   on_input_submitted url_never fs_nothing (fresh ''not-a-real-file.md'') =
     Inr \<lparr>value_str = ''not-a-real-file.md'',
          posted = [LocalViewCommand (Path ''not-a-real-file.md'')],
          stopped = True\<rparr>"
proof -
  have s: "''not-a-real-file.md'' = strip (value_str (fresh ''not-a-real-file.md''))"
    unfolding fresh_def by code_simp
  have u: "\<not> url_never ''not-a-real-file.md''" by (simp add: url_never_def)
  have e: "\<not> exists fs_nothing (Path ''not-a-real-file.md'')" by (simp add: fs_nothing_def)
  have sp: "split_command (lower ''not-a-real-file.md'') = [''not-a-real-file.md'', []]"
    by code_simp
  have g: "getattr (''command_'' @ aliases_get ''not-a-real-file.md'') = None"
    by (simp add: getattr_def aliases_get_def ALIASES_def)
  from unresolved_filename
      [where is_likely_url = url_never and fs = fs_nothing
         and self = "fresh ''not-a-real-file.md''", OF s u e sp g]
  show ?thesis using sp g by (simp add: fresh_def)
qed

text \<open>
  Claim C8. When \<^const>\<open>is_command\<close> has returned true for a text,
  \<^const>\<open>execute_command\<close> on the same text returns: the text splits into a word
  and a remainder, the lookup of the handler of the alias-resolved word succeeds, and
  the result is that handler's, called with the stripped remainder.
\<close>

theorem execute_command_succeeds:
  assumes "is_command v = Inr True"
  shows "\<exists>command arguments handler.
           split_command v = [command, arguments] \<and>
           getattr (''command_'' @ aliases_get command) = Some handler \<and>
           execute_command v self = Inr (handler (strip arguments) self)"
proof -
  from is_command_TrueD [OF assms] obtain command arguments handler
    where s: "split_command v = [command, arguments]"
      and g: "getattr (''command_'' @ aliases_get command) = Some handler"
    by blast
  then have "execute_command v self = Inr (handler (strip arguments) self)"
    unfolding execute_command_def by simp
  with s g show ?thesis by blast
qed

theorem execute_command_succeeds_witness:
  "is_command ''cd /tmp'' = Inr True \<and>
   execute_command ''cd /tmp'' (fresh []) =
     Inr \<lparr>value_str = [], posted = [LocalChdirCommand (Path ''/tmp'')], stopped = False\<rparr>"
proof -
  have c: "is_command ''cd /tmp'' = Inr True" by code_simp
  have sp: "split_command ''cd /tmp'' = [''cd'', ''/tmp'']" by code_simp
  have st: "strip ''/tmp'' = ''/tmp''" by code_simp
  have g: "getattr (''command_'' @ aliases_get ''cd'') = Some command_chdir"
    by (simp add: getattr_def aliases_get_def ALIASES_def)
  from execute_command_succeeds [OF c, of "fresh []"] obtain command arguments handler
    where "split_command ''cd /tmp'' = [command, arguments]"
      and "getattr (''command_'' @ aliases_get command) = Some handler"
      and "execute_command ''cd /tmp'' (fresh []) = Inr (handler (strip arguments) (fresh []))"
    by blast
  with sp g have "execute_command ''cd /tmp'' (fresh []) = Inr (command_chdir ''/tmp'' (fresh []))"
    by (simp add: st)
  with c show ?thesis
    by (simp add: fresh_def command_chdir_def post_message_def)
qed

text \<open>
  Claim C9. The outcome of the handler depends on the URL predicate and on the probe
  only through their answers for the submitted text: two runs from the same widget
  state in which those answers agree give the same result (the same messages, the same
  value, the same event flag, or the same error).
\<close>

theorem on_input_submitted_deterministic:
  assumes "is_likely_url (strip (value_str self)) = is_likely_url' (strip (value_str self))"
    and "exists fs (Path (strip (value_str self))) = exists fs' (Path (strip (value_str self)))"
    and "is_file fs (Path (strip (value_str self))) = is_file fs' (Path (strip (value_str self)))"
    and "is_dir fs (Path (strip (value_str self))) = is_dir fs' (Path (strip (value_str self)))"
  shows "on_input_submitted is_likely_url fs self = on_input_submitted is_likely_url' fs' self"
  unfolding on_input_submitted_def Let_def
  by (simp only: assms)

theorem on_input_submitted_deterministic_witness:
  "url_never \<noteq> url_https \<and> fs_nothing \<noteq> fs_readme \<and>
   on_input_submitted url_never fs_nothing (fresh ''q'') =
   on_input_submitted url_https fs_readme (fresh ''q'')"
proof -
  have s: "strip (value_str (fresh ''q'')) = ''q''" unfolding fresh_def by code_simp
  have p: "Path ''q'' \<noteq> Path ''README.md''" by code_simp
  have u: "url_never (strip (value_str (fresh ''q''))) = url_https (strip (value_str (fresh ''q'')))"
    by (simp add: s url_never_def url_https_def)
  have e: "exists fs_nothing (Path (strip (value_str (fresh ''q'')))) =
           exists fs_readme (Path (strip (value_str (fresh ''q''))))"
    by (simp add: s p fs_nothing_def fs_readme_def)
  have f: "is_file fs_nothing (Path (strip (value_str (fresh ''q'')))) =
           is_file fs_readme (Path (strip (value_str (fresh ''q''))))"
    by (simp add: s p fs_nothing_def fs_readme_def)
  have d: "is_dir fs_nothing (Path (strip (value_str (fresh ''q'')))) =
           is_dir fs_readme (Path (strip (value_str (fresh ''q''))))"
    by (simp add: fs_nothing_def fs_readme_def)
  have n1: "url_never ''https://'' \<noteq> url_https ''https://''"
    by (simp add: url_never_def url_https_def)
  have n2: "exists fs_nothing (Path ''README.md'') \<noteq> exists fs_readme (Path ''README.md'')"
    by (simp add: fs_nothing_def fs_readme_def)
  from n1 have "url_never \<noteq> url_https" by auto
  moreover from n2 have "fs_nothing \<noteq> fs_readme" by auto
  moreover note on_input_submitted_deterministic
      [where is_likely_url = url_never and is_likely_url' = url_https and fs = fs_nothing
         and fs' = fs_readme and self = "fresh ''q''", OF u e f d]
  ultimately show ?thesis by simp
qed

text \<open>
  Claim C10. A text that strips to the empty string, when the empty string is not
  URL-like, is probed as the path made from the empty string, which is the path of
  \<^verbatim>\<open>.\<close>; when the probe reports it as an existing directory, the handler posts
  one \<^const>\<open>LocalChdirCommand\<close> for it, leaves the value empty and stops the event.
\<close>

theorem empty_submission_is_current_directory:
  assumes "strip (value_str self) = []"
    and "\<not> is_likely_url []"
    and "exists fs (Path [])"
    and "\<not> is_file fs (Path [])"
    and "is_dir fs (Path [])"
  shows "Path [] = Path ''.'' \<and> str_path (Path []) = ''.'' \<and>
         on_input_submitted is_likely_url fs self =
           Inr (self\<lparr>value_str := [],
                     posted := posted self @ [LocalChdirCommand (Path ''.'')],
                     stopped := True\<rparr>)"
proof -
  have p: "Path [] = Path ''.''" by (simp add: Path_def splitroot_def)
  have s: "str_path (Path []) = ''.''" by (simp add: str_path_def Path_def splitroot_def)
  have "on_input_submitted is_likely_url fs self =
          Inr (self\<lparr>value_str := [],
                    posted := posted self @ [LocalChdirCommand (Path [])],
                    stopped := True\<rparr>)"
    using assms
    unfolding on_input_submitted_def Let_def post_message_def event_stop_def by simp
  with p s show ?thesis by simp
qed

theorem empty_submission_is_current_directory_witness:
  "strip (value_str (fresh ''  '')) = [] \<and>
   on_input_submitted url_never fs_dirs (fresh ''  '') =
     Inr \<lparr>value_str = [], posted = [LocalChdirCommand (Path ''.'')], stopped = True\<rparr>"
proof -
  have s: "strip (value_str (fresh ''  '')) = []" unfolding fresh_def by code_simp
  have u: "\<not> url_never []" by (simp add: url_never_def)
  have e: "exists fs_dirs (Path [])" by (simp add: fs_dirs_def)
  have f: "\<not> is_file fs_dirs (Path [])" by (simp add: fs_dirs_def)
  have d: "is_dir fs_dirs (Path [])" by (simp add: fs_dirs_def)
  from empty_submission_is_current_directory
      [where is_likely_url = url_never and fs = fs_dirs and self = "fresh ''  ''",
       OF s u e f d]
  show ?thesis using s by (simp add: fresh_def)
qed

text \<open>
  Claim C7. When the submitted text is not URL-like and the probe reports its path as
  existing but neither a regular file nor a directory, the handler returns with no
  message posted, the value empty and the event flag untouched. In every other case in
  which the handler returns, the event is stopped; the handler returns in every other
  case but one, the empty text whose path does not exist, where the split of the text
  raises ValueError.
\<close>

theorem only_unrepresentable_entry_continues:
  assumes "submitted = strip (value_str self)"
    and "unrepresentable \<longleftrightarrow>
           \<not> is_likely_url submitted \<and> exists fs (Path submitted) \<and>
           \<not> is_file fs (Path submitted) \<and> \<not> is_dir fs (Path submitted)"
  shows "(unrepresentable \<longrightarrow>
            on_input_submitted is_likely_url fs self = Inr (self\<lparr>value_str := []\<rparr>)) \<and>
         (\<not> unrepresentable \<longrightarrow>
            (\<exists>self'. on_input_submitted is_likely_url fs self = Inr self' \<and> stopped self') \<or>
            (submitted = [] \<and> on_input_submitted is_likely_url fs self = Inl ValueError))"
proof (intro conjI impI)
  assume unrepresentable
  with assms show "on_input_submitted is_likely_url fs self = Inr (self\<lparr>value_str := []\<rparr>)"
    unfolding on_input_submitted_def Let_def by simp
next
  assume n: "\<not> unrepresentable"
  show "(\<exists>self'. on_input_submitted is_likely_url fs self = Inr self' \<and> stopped self') \<or>
        (submitted = [] \<and> on_input_submitted is_likely_url fs self = Inl ValueError)"
  proof (cases "is_likely_url submitted")
    case True
    with assms(1) show ?thesis
      unfolding on_input_submitted_def Let_def post_message_def event_stop_def by simp
  next
    case u: False
    show ?thesis
    proof (cases "exists fs (Path submitted)")
      case True
      with u n assms(2) have "is_file fs (Path submitted) \<or> is_dir fs (Path submitted)" by blast
      with u True assms(1) show ?thesis
        unfolding on_input_submitted_def Let_def post_message_def event_stop_def by auto
    next
      case e: False
      show ?thesis
      proof (cases "submitted = []")
        case True
        have "split_command (lower []) = []" by code_simp
        with True u e assms(1) on_input_submitted_empty [of is_likely_url self fs]
        show ?thesis by simp
      next
        case False
        with u e assms(1) on_input_submitted_returns [of is_likely_url self fs]
        show ?thesis by simp
      qed
    qed
  qed
qed

theorem only_unrepresentable_entry_continues_witness:
  "on_input_submitted url_never fs_special (fresh ''/dev/null'') =
     Inr \<lparr>value_str = [], posted = [], stopped = False\<rparr> \<and>
   (\<exists>self'. on_input_submitted url_never fs_dirs (fresh ''/dev/null'') = Inr self' \<and> stopped self')"
proof -
  have s: "''/dev/null'' = strip (value_str (fresh ''/dev/null''))"
    unfolding fresh_def by code_simp
  have a: "True \<longleftrightarrow>
             \<not> url_never ''/dev/null'' \<and> exists fs_special (Path ''/dev/null'') \<and>
             \<not> is_file fs_special (Path ''/dev/null'') \<and> \<not> is_dir fs_special (Path ''/dev/null'')"
    by (simp add: url_never_def fs_special_def)
  have b: "False \<longleftrightarrow>
             \<not> url_never ''/dev/null'' \<and> exists fs_dirs (Path ''/dev/null'') \<and>
             \<not> is_file fs_dirs (Path ''/dev/null'') \<and> \<not> is_dir fs_dirs (Path ''/dev/null'')"
    by (simp add: url_never_def fs_dirs_def)
  have n: "''/dev/null'' \<noteq> []" by simp
  from only_unrepresentable_entry_continues
      [where is_likely_url = url_never and fs = fs_special and self = "fresh ''/dev/null''"
         and unrepresentable = True, OF s a]
  have 1: "on_input_submitted url_never fs_special (fresh ''/dev/null'') =
             Inr \<lparr>value_str = [], posted = [], stopped = False\<rparr>"
    by (simp add: fresh_def)
  from only_unrepresentable_entry_continues
      [where is_likely_url = url_never and fs = fs_dirs and self = "fresh ''/dev/null''"
         and unrepresentable = False, OF s b]
  have 2: "\<exists>self'. on_input_submitted url_never fs_dirs (fresh ''/dev/null'') = Inr self' \<and> stopped self'"
    using n by simp
  from 1 2 show ?thesis by simp
qed

end
